theory Spec2Isabelle
  imports Main "HOL-Library.Char_ord" "HOL-Library.List_Lexorder" "HOL-Library.Multiset"
begin

section \<open>Data model\<close>

text \<open>
  A Go byte slice is a list of bytes. Isabelle's \<open>char\<close> is an eight-bit byte, ordered by
  its numeric value, and lists are ordered lexicographically: a proper prefix sorts before
  its extensions. This is the order of Go's \<open>bytes.Compare\<close>, which returns \<open>-1\<close>, \<open>0\<close> or
  \<open>+1\<close>.
\<close>

type_synonym bytes = string

definition Compare :: "bytes \<Rightarrow> bytes \<Rightarrow> int" where
  "Compare a b = (if a < b then - 1 else if a = b then 0 else 1)"

text \<open>
  \<open>Key\<close> holds the sort key and the values stored under it. The mutex \<open>Latch\<close> only
  serialises concurrent writers of \<open>Values\<close>; in sequential execution locking and unlocking
  it has no effect, so the record does not carry it.
\<close>

record Key =
  K :: bytes
  Values :: "bytes list"

text \<open>
  A pointer to a node is \<open>Node option\<close>: \<open>None\<close> is Go's \<open>nil\<close>, and \<open>Some n\<close> points to the
  node \<open>n\<close>. A value of type \<open>Node\<close> is a node that a non-nil pointer has been dereferenced to.
\<close>

datatype Node = Node (Key: Key) (Left: "Node option") (Right: "Node option")

record BST =
  Root :: "Node option"

definition New :: BST where
  "New = \<lparr>Root = None\<rparr>"

section \<open>Put\<close>

text \<open>
  \<open>atomic.CompareAndSwapPointer(addr, old, new)\<close>: the slot \<open>addr\<close> is passed by value and
  returned updated, together with the flag that says whether the swap happened.
\<close>

definition CompareAndSwapPointer ::
  "Node option \<Rightarrow> Node option \<Rightarrow> Node option \<Rightarrow> Node option \<times> bool" where
  "CompareAndSwapPointer addr old new = (if addr = old then (new, True) else (addr, False))"

text \<open>
  \<open>put\<close> dereferences its first argument at once; both of its call sites test the pointer
  for nil before the call, which is the case distinction on the option here. It returns the
  node as it is after the call and the boolean of the source. The source falls through to
  \<open>return false\<close> when a compare-and-swap fails. The only caller builds \<open>newNode\<close> with a
  one-element \<open>Values\<close>, which is what index \<open>0\<close> reads.
\<close>

function put :: "Node \<Rightarrow> Node \<Rightarrow> Node \<times> bool" where
  "put (Node k l r) newNode =
     (if Compare (K (Key newNode)) (K k) < 0 then
        (case l of
           None \<Rightarrow>
             (case CompareAndSwapPointer l None (Some newNode) of
                (l', swapped) \<Rightarrow> if swapped then (Node k l' r, True) else (Node k l' r, False))
         | Some left \<Rightarrow>
             (case put left newNode of (left', ok) \<Rightarrow> (Node k (Some left') r, ok)))
      else if Compare (K (Key newNode)) (K k) > 0 then
        (case r of
           None \<Rightarrow>
             (case CompareAndSwapPointer r None (Some newNode) of
                (r', swapped) \<Rightarrow> if swapped then (Node k l r', True) else (Node k l r', False))
         | Some right \<Rightarrow>
             (case put right newNode of (right', ok) \<Rightarrow> (Node k l (Some right'), ok)))
      else (Node (k\<lparr>Values := Values k @ [Values (Key newNode) ! 0]\<rparr>) l r, True))"
  by pat_completeness auto
termination
  by (relation "measure (\<lambda>(root, newNode). size root)") auto

text \<open>
  The retry loop of \<open>Put\<close>. It may in principle run forever, so it is a partial function:
  \<open>None\<close> stands for a loop that never returns.
\<close>

partial_function (option) Put_loop :: "BST \<Rightarrow> Node \<Rightarrow> BST option" where
  "Put_loop bst newNode =
     (case Root bst of
        None \<Rightarrow>
          (case CompareAndSwapPointer (Root bst) None (Some newNode) of
             (root', swapped) \<Rightarrow>
               if swapped then Some (bst\<lparr>Root := root'\<rparr>)
               else Put_loop (bst\<lparr>Root := root'\<rparr>) newNode)
      | Some root \<Rightarrow>
          (case put root newNode of
             (root', ok) \<Rightarrow>
               if ok then Some (bst\<lparr>Root := Some root'\<rparr>)
               else Put_loop (bst\<lparr>Root := Some root'\<rparr>) newNode))"

declare Put_loop.simps [code]

definition Put :: "BST \<Rightarrow> bytes \<Rightarrow> bytes \<Rightarrow> BST option" where
  "Put bst key value = Put_loop bst (Node \<lparr>K = key, Values = [value]\<rparr> None None)"

section \<open>Get\<close>

function get :: "Node option \<Rightarrow> bytes \<Rightarrow> Key option" where
  "get None key = None"
| "get (Some (Node k l r)) key =
     (if Compare key (K k) < 0 then get l key
      else if Compare key (K k) > 0 then get r key
      else Some k)"
  by pat_completeness auto
termination
  by (relation "measure (\<lambda>(node, key). size_option size node)") auto

definition Get :: "BST \<Rightarrow> bytes \<Rightarrow> Key option" where
  "Get bst key = get (Root bst) key"

section \<open>Remove\<close>

text \<open>
  The loop over \<open>Values\<close> of \<open>remove\<close>, by index: at the first element equal to \<open>value\<close> the
  list is spliced and the loop is left.
\<close>

function remove_values :: "nat \<Rightarrow> bytes list \<Rightarrow> bytes \<Rightarrow> bytes list" where
  "remove_values i vs value =
     (if i < length vs then
        (if Compare (vs ! i) value = 0 then take i vs @ drop (i + 1) vs
         else remove_values (i + 1) vs value)
      else vs)"
  by pat_completeness auto
termination
  by (relation "measure (\<lambda>(i, vs, value). length vs - i)") auto

declare remove_values.simps [simp del]

function remove_node :: "Node option \<Rightarrow> bytes \<Rightarrow> bytes \<Rightarrow> Node option" where
  "remove_node None key value = None"
| "remove_node (Some (Node k l r)) key value =
     (if Compare key (K k) < 0 then Some (Node k (remove_node l key value) r)
      else if Compare key (K k) > 0 then Some (Node k l (remove_node r key value))
      else Some (Node (k\<lparr>Values := remove_values 0 (Values k) value\<rparr>) l r))"
  by pat_completeness auto
termination
  by (relation "measure (\<lambda>(node, key, value). size_option size node)") auto

definition Remove :: "BST \<Rightarrow> bytes \<Rightarrow> bytes \<Rightarrow> BST" where
  "Remove bst key value = bst\<lparr>Root := remove_node (Root bst) key value\<rparr>"

section \<open>Delete\<close>

function minValueNode :: "Node \<Rightarrow> Node" where
  "minValueNode (Node k l r) = (case l of None \<Rightarrow> Node k l r | Some left \<Rightarrow> minValueNode left)"
  by pat_completeness auto
termination
  by (relation "measure (size)") auto

function delete :: "Node option \<Rightarrow> bytes \<Rightarrow> Node option" where
  "delete None key = None"
| "delete (Some (Node k l r)) key =
     (if Compare key (K k) < 0 then Some (Node k (delete l key) r)
      else if Compare key (K k) > 0 then Some (Node k l (delete r key))
      else (case l of
              None \<Rightarrow> r
            | Some left \<Rightarrow>
                (case r of
                   None \<Rightarrow> l
                 | Some right \<Rightarrow>
                     (let minNode = minValueNode right
                      in Some (Node (Key minNode) l (delete r (K (Key minNode))))))))"
  by pat_completeness auto
termination
  by (relation "measure (\<lambda>(node, key). size_option size node)") auto

definition Delete :: "BST \<Rightarrow> bytes \<Rightarrow> BST" where
  "Delete bst key = bst\<lparr>Root := delete (Root bst) key\<rparr>"

section \<open>Scans\<close>

text \<open>
  Every scan helper appends to the slice \<open>keys\<close> it is handed; the slice is passed in and
  returned.
\<close>

function rangeKeys :: "Node option \<Rightarrow> bytes \<Rightarrow> bytes \<Rightarrow> Key list \<Rightarrow> Key list" where
  "rangeKeys None start end keys = keys"
| "rangeKeys (Some (Node k l r)) start end keys =
     (let keys1 = (if Compare (K k) start > 0 then rangeKeys l start end keys else keys);
          keys2 = (if Compare (K k) start \<ge> 0 \<and> Compare (K k) end \<le> 0 then keys1 @ [k]
                   else keys1)
      in if Compare (K k) end < 0 then rangeKeys r start end keys2 else keys2)"
  by pat_completeness auto
termination
  by (relation "measure (\<lambda>(node, start, end, keys). size_option size node)") auto

definition Range_bst :: "BST \<Rightarrow> bytes \<Rightarrow> bytes \<Rightarrow> Key list" where
  "Range_bst bst start end = rangeKeys (Root bst) start end []"

function greaterThan :: "Node option \<Rightarrow> bytes \<Rightarrow> Key list \<Rightarrow> Key list" where
  "greaterThan None key keys = keys"
| "greaterThan (Some (Node k l r)) key keys =
     (if Compare (K k) key > 0 then greaterThan r key (greaterThan l key keys @ [k])
      else greaterThan r key keys)"
  by pat_completeness auto
termination
  by (relation "measure (\<lambda>(node, key, keys). size_option size node)") auto

definition GreaterThan :: "BST \<Rightarrow> bytes \<Rightarrow> Key list" where
  "GreaterThan bst key = greaterThan (Root bst) key []"

function greaterThanEq :: "Node option \<Rightarrow> bytes \<Rightarrow> Key list \<Rightarrow> Key list" where
  "greaterThanEq None key keys = keys"
| "greaterThanEq (Some (Node k l r)) key keys =
     (if Compare (K k) key \<ge> 0 then greaterThanEq r key (greaterThanEq l key (keys @ [k]))
      else greaterThanEq r key keys)"
  by pat_completeness auto
termination
  by (relation "measure (\<lambda>(node, key, keys). size_option size node)") auto

definition GreaterThanEq :: "BST \<Rightarrow> bytes \<Rightarrow> Key list" where
  "GreaterThanEq bst key = greaterThanEq (Root bst) key []"

function lessThan_node :: "Node option \<Rightarrow> bytes \<Rightarrow> Key list \<Rightarrow> Key list" where
  "lessThan_node None key keys = keys"
| "lessThan_node (Some (Node k l r)) key keys =
     (if Compare (K k) key < 0 then lessThan_node r key (lessThan_node l key (keys @ [k]))
      else lessThan_node l key keys)"
  by pat_completeness auto
termination
  by (relation "measure (\<lambda>(node, key, keys). size_option size node)") auto

definition LessThan :: "BST \<Rightarrow> bytes \<Rightarrow> Key list" where
  "LessThan bst key = lessThan_node (Root bst) key []"

function lessThanEq :: "Node option \<Rightarrow> bytes \<Rightarrow> Key list \<Rightarrow> Key list" where
  "lessThanEq None key keys = keys"
| "lessThanEq (Some (Node k l r)) key keys =
     (if Compare (K k) key \<le> 0 then lessThanEq r key (lessThanEq l key (keys @ [k]))
      else lessThanEq l key keys)"
  by pat_completeness auto
termination
  by (relation "measure (\<lambda>(node, key, keys). size_option size node)") auto

definition LessThanEq :: "BST \<Rightarrow> bytes \<Rightarrow> Key list" where
  "LessThanEq bst key = lessThanEq (Root bst) key []"

function nGet :: "Node option \<Rightarrow> bytes \<Rightarrow> Key list \<Rightarrow> Key list" where
  "nGet None key keys = keys"
| "nGet (Some (Node k l r)) key keys =
     (let keys1 = nGet l key keys;
          keys2 = (if Compare (K k) key \<noteq> 0 then keys1 @ [k] else keys1)
      in nGet r key keys2)"
  by pat_completeness auto
termination
  by (relation "measure (\<lambda>(node, key, keys). size_option size node)") auto

definition NGet :: "BST \<Rightarrow> bytes \<Rightarrow> Key list" where
  "NGet bst key = nGet (Root bst) key []"

section \<open>Specification vocabulary\<close>

text \<open>The in-order traversal (left, self, right) of the tree below a pointer.\<close>

fun inorder :: "Node option \<Rightarrow> Key list" where
  "inorder None = []"
| "inorder (Some (Node k l r)) = inorder l @ [k] @ inorder r"

text \<open>The sort keys of the nodes below a pointer.\<close>

fun keys :: "Node option \<Rightarrow> bytes set" where
  "keys None = {}"
| "keys (Some (Node k l r)) = keys l \<union> {K k} \<union> keys r"

text \<open>
  The BST property, node by node: every key of the left subtree is less than the node's key
  and every key of the right subtree is greater.
\<close>

fun bst_prop :: "Node option \<Rightarrow> bool" where
  "bst_prop None = True"
| "bst_prop (Some (Node k l r)) =
     ((\<forall>x \<in> keys l. x < K k) \<and> (\<forall>x \<in> keys r. K k < x) \<and> bst_prop l \<and> bst_prop r)"

text \<open>
  The slot that held the pointer \<open>p\<close>, after an insertion of \<open>newNode\<close> through it: the new
  node itself where the slot was nil (the compare-and-swap of \<open>Put\<close> and \<open>put\<close>), and the
  node that \<open>put\<close> leaves otherwise.
\<close>

definition slot_after_put :: "Node option \<Rightarrow> Node \<Rightarrow> Node option" where
  "slot_after_put p newNode =
     Some (case p of None \<Rightarrow> newNode | Some n \<Rightarrow> fst (put n newNode))"

text \<open>The pre-order traversal (self, left, right).\<close>

fun preorder :: "Node option \<Rightarrow> Key list" where
  "preorder None = []"
| "preorder (Some (Node k l r)) = [k] @ preorder l @ preorder r"

text \<open>
  \<open>mapKeys f p\<close> is the tree below \<open>p\<close> with the same nodes and the same links, where
  every node's \<open>Key\<close> record \<open>k\<close> has become \<open>f k\<close>.
\<close>

fun mapKeys :: "(Key \<Rightarrow> Key) \<Rightarrow> Node option \<Rightarrow> Node option" where
  "mapKeys f None = None"
| "mapKeys f (Some (Node k l r)) = Some (Node (f k) (mapKeys f l) (mapKeys f r))"

text \<open>
  The link structure alone: the shape of the tree and the sort key of every node, with the
  value lists blanked.
\<close>

definition links :: "Node option \<Rightarrow> Node option" where
  "links p = mapKeys (\<lambda>k. k\<lparr>Values := []\<rparr>) p"

text \<open>Sequences of mutating calls, run from left to right on a tree.\<close>

datatype operation = OpPut bytes bytes | OpDelete bytes | OpRemove bytes bytes

fun apply_operation :: "BST \<Rightarrow> operation \<Rightarrow> BST option" where
  "apply_operation bst (OpPut key value) = Put bst key value"
| "apply_operation bst (OpDelete key) = Some (Delete bst key)"
| "apply_operation bst (OpRemove key value) = Some (Remove bst key value)"

fun run :: "BST \<Rightarrow> operation list \<Rightarrow> BST option" where
  "run bst [] = Some bst"
| "run bst (x # xs) =
     (case apply_operation bst x of None \<Rightarrow> None | Some bst' \<Rightarrow> run bst' xs)"

section \<open>Comparison\<close>

lemma Compare_less [simp]: "Compare a b < 0 \<longleftrightarrow> a < b"
  by (simp add: Compare_def)

lemma Compare_greater [simp]: "0 < Compare a b \<longleftrightarrow> b < a"
  by (auto simp: Compare_def)

lemma Compare_eq [simp]: "Compare a b = 0 \<longleftrightarrow> a = b"
  by (simp add: Compare_def)

lemma Compare_ge [simp]: "0 \<le> Compare a b \<longleftrightarrow> b \<le> a"
  by (auto simp: Compare_def)

lemma Compare_le [simp]: "Compare a b \<le> 0 \<longleftrightarrow> a \<le> b"
  by (auto simp: Compare_def)

section \<open>The retry loop of Put\<close>

lemma put_ok: "put n newNode = (n', ok) \<Longrightarrow> ok"
  by (induction n newNode arbitrary: n' ok rule: put.induct)
     (auto simp: CompareAndSwapPointer_def split: option.splits prod.splits if_splits)

lemma Put_loop_Some: "Put_loop bst newNode = Some (bst\<lparr>Root := slot_after_put (Root bst) newNode\<rparr>)"
  by (subst Put_loop.simps)
     (auto simp: slot_after_put_def CompareAndSwapPointer_def
           split: option.splits prod.splits dest: put_ok)

lemma Put_Some:
  "Put bst key value =
     Some (bst\<lparr>Root := slot_after_put (Root bst) (Node \<lparr>K = key, Values = [value]\<rparr> None None)\<rparr>)"
  by (simp add: Put_def Put_loop_Some)

lemma slot_after_put_None [simp]: "slot_after_put None nn = Some nn"
  by (simp add: slot_after_put_def)

lemma slot_after_put_Node [simp]:
  "slot_after_put (Some (Node k l r)) nn =
     (if K (Key nn) < K k then Some (Node k (slot_after_put l nn) r)
      else if K k < K (Key nn) then Some (Node k l (slot_after_put r nn))
      else Some (Node (k\<lparr>Values := Values k @ [Values (Key nn) ! 0]\<rparr>) l r))"
  by (auto simp: slot_after_put_def CompareAndSwapPointer_def split: option.splits prod.splits)

section \<open>Trees and their in-order traversal\<close>

lemma ptr_induct [case_names nil Node]:
  "P None \<Longrightarrow> (\<And>k l r. P l \<Longrightarrow> P r \<Longrightarrow> P (Some (Node k l r))) \<Longrightarrow> P p"
  by (induction p rule: inorder.induct) auto

lemma keys_inorder: "keys p = K ` set (inorder p)"
  by (induction p rule: ptr_induct) auto

lemma bst_sorted: "bst_prop p \<Longrightarrow> sorted_wrt (<) (map K (inorder p))"
  by (induction p rule: ptr_induct) (fastforce simp: sorted_wrt_append keys_inorder)+

lemma sorted_bst: "sorted_wrt (<) (map K (inorder p)) \<Longrightarrow> bst_prop p"
  by (induction p rule: ptr_induct) (auto simp: sorted_wrt_append keys_inorder)

lemma find_append_key:
  "find P (xs @ ys) = (case find P xs of None \<Rightarrow> find P ys | Some x \<Rightarrow> Some x)"
  by (induction xs) auto

lemma find_None_keys: "find (\<lambda>x. K x = key) xs = None \<longleftrightarrow> key \<notin> K ` set xs"
  by (induction xs) auto

lemma get_None_iff: "bst_prop p \<Longrightarrow> get p key = None \<longleftrightarrow> key \<notin> keys p"
  by (induction p rule: ptr_induct) auto

lemma get_Some_key: "get p key = Some k \<Longrightarrow> K k = key \<and> k \<in> set (inorder p)"
  by (induction p rule: ptr_induct) (auto split: if_splits)

lemma get_find: "bst_prop p \<Longrightarrow> get p key = find (\<lambda>x. K x = key) (inorder p)"
proof (induction p rule: ptr_induct)
  case nil
  show ?case by simp
next
  case (Node k l r)
  show ?case
  proof (cases "key < K k")
    case True
    then have "key \<notin> keys r" using Node.prems by auto
    then have "find (\<lambda>x. K x = key) (inorder r) = None"
      by (simp add: find_None_keys keys_inorder)
    with True Node show ?thesis by (auto simp: find_append_key split: option.splits)
  next
    case False
    show ?thesis
    proof (cases "K k < key")
      case True
      then have "key \<notin> keys l" using Node.prems by auto
      then have "find (\<lambda>x. K x = key) (inorder l) = None"
        by (simp add: find_None_keys keys_inorder)
      with True False Node show ?thesis by (auto simp: find_append_key split: option.splits)
    next
      case F2: False
      with False have eq: "K k = key" by simp
      then have "key \<notin> keys l" using Node.prems by auto
      then have "find (\<lambda>x. K x = key) (inorder l) = None"
        by (simp add: find_None_keys keys_inorder)
      with eq show ?thesis by (auto simp: find_append_key)
    qed
  qed
qed

section \<open>Insertion\<close>

lemma keys_slot_after_put:
  "keys (slot_after_put p (Node kk None None)) = insert (K kk) (keys p)"
  by (induction p rule: ptr_induct) auto

lemma bst_slot_after_put:
  "bst_prop p \<Longrightarrow> bst_prop (slot_after_put p (Node kk None None))"
  by (induction p rule: ptr_induct) (auto simp: keys_slot_after_put)

lemma get_slot_after_put_same:
  "get (slot_after_put p (Node \<lparr>K = key, Values = [value]\<rparr> None None)) key
     = Some \<lparr>K = key, Values = (case get p key of None \<Rightarrow> [] | Some k \<Rightarrow> Values k) @ [value]\<rparr>"
  by (induction p rule: ptr_induct) auto

lemma get_slot_after_put_other:
  "key' \<noteq> K kk \<Longrightarrow> get (slot_after_put p (Node kk None None)) key' = get p key'"
  by (induction p rule: ptr_induct) auto

lemma inorder_mapKeys: "inorder (mapKeys f p) = map f (inorder p)"
  by (induction p rule: ptr_induct) auto

lemma links_mapKeys: "(\<And>k. K (f k) = K k) \<Longrightarrow> links (mapKeys f p) = links p"
  by (induction p rule: ptr_induct) (auto simp: links_def)

lemma mapKeys_id: "(\<And>k. K k \<in> keys p \<Longrightarrow> f k = k) \<Longrightarrow> mapKeys f p = p"
  by (induction p rule: ptr_induct) auto

lemma slot_after_put_present:
  "bst_prop p \<Longrightarrow> key \<in> keys p \<Longrightarrow>
   slot_after_put p (Node \<lparr>K = key, Values = [value]\<rparr> None None)
     = mapKeys (\<lambda>k. if K k = key then k\<lparr>Values := Values k @ [value]\<rparr> else k) p"
proof (induction p rule: ptr_induct)
  case nil
  then show ?case by simp
next
  case (Node k l r)
  let ?f = "\<lambda>k. if K k = key then k\<lparr>Values := Values k @ [value]\<rparr> else k"
  show ?case
  proof (cases "key < K k")
    case True
    then have "key \<notin> keys r" using Node.prems(1) by auto
    then have r: "mapKeys ?f r = r" by (intro mapKeys_id) auto
    from True Node.prems have "key \<in> keys l" by auto
    with Node True r show ?thesis by auto
  next
    case False
    show ?thesis
    proof (cases "K k < key")
      case True
      then have "key \<notin> keys l" using Node.prems(1) by auto
      then have l: "mapKeys ?f l = l" by (intro mapKeys_id) auto
      from True Node.prems have "key \<in> keys r" by auto
      with Node True False l show ?thesis by auto
    next
      case F2: False
      with False have eq: "K k = key" by simp
      then have "key \<notin> keys l" "key \<notin> keys r" using Node.prems(1) by auto
      then have "mapKeys ?f l = l" "mapKeys ?f r = r" by (auto intro!: mapKeys_id)
      with eq show ?thesis by auto
    qed
  qed
qed

section \<open>Value removal\<close>

lemma remove_values_eq: "remove_values i vs value = take i vs @ remove1 value (drop i vs)"
proof (induction i vs "value" rule: remove_values.induct)
  case (1 i vs "value")
  show ?case
  proof (cases "i < length vs")
    case False
    then show ?thesis by (subst remove_values.simps) simp
  next
    case True
    then have d: "drop i vs = vs ! i # drop (Suc i) vs" by (simp add: Cons_nth_drop_Suc)
    show ?thesis
    proof (cases "vs ! i = value")
      case eq: True
      with True d show ?thesis by (subst remove_values.simps) simp
    next
      case neq: False
      with True have "remove_values i vs value = remove_values (i + 1) vs value"
        by (subst remove_values.simps) simp
      also have "\<dots> = take (i + 1) vs @ remove1 value (drop (i + 1) vs)"
        using 1 True neq by simp
      also have "\<dots> = take i vs @ remove1 value (drop i vs)"
        using True neq d by (simp add: take_Suc_conv_app_nth)
      finally show ?thesis .
    qed
  qed
qed

lemma remove_values_remove1: "remove_values 0 vs value = remove1 value vs"
  by (simp add: remove_values_eq)

lemma keys_remove_node: "keys (remove_node p key value) = keys p"
  by (induction p rule: ptr_induct) auto

lemma bst_remove_node: "bst_prop p \<Longrightarrow> bst_prop (remove_node p key value)"
  by (induction p rule: ptr_induct) (auto simp: keys_remove_node)

lemma links_remove_node: "links (remove_node p key value) = links p"
  by (induction p rule: ptr_induct) (auto simp: links_def)

lemma get_remove_node:
  "get (remove_node p key value) key' =
     (if key' = key then map_option (\<lambda>k. k\<lparr>Values := remove1 value (Values k)\<rparr>) (get p key)
      else get p key')"
  by (induction p rule: ptr_induct) (auto simp: remove_values_remove1)

lemma remove_node_absent_key: "get p key = None \<Longrightarrow> remove_node p key value = p"
  by (induction p rule: ptr_induct) (auto split: if_splits)

lemma remove_node_absent_value:
  "get p key = Some k \<Longrightarrow> value \<notin> set (Values k) \<Longrightarrow> remove_node p key value = p"
  by (induction p rule: ptr_induct) (auto split: if_splits simp: remove_values_remove1 remove1_idem)

section \<open>Structural deletion\<close>

lemma inorder_Some_nonempty: "inorder (Some n) \<noteq> []"
  by (cases n) simp

lemma minValueNode_hd: "hd (inorder (Some n)) = Key (minValueNode n)"
  by (induction n rule: minValueNode.induct)
     (auto split: option.splits simp: inorder_Some_nonempty)

lemma minValueNode_first: "inorder (Some n) = Key (minValueNode n) # tl (inorder (Some n))"
  using inorder_Some_nonempty [of n] minValueNode_hd [of n] by (cases "inorder (Some n)") auto

lemma minValueNode_Left: "Left (minValueNode n) = None"
  by (induction n rule: minValueNode.induct) (auto split: option.splits)

lemma filter_head_sorted:
  "sorted_wrt (<) (map K (m # xs)) \<Longrightarrow> filter (\<lambda>x. K x \<noteq> K m) (m # xs) = xs"
  by (auto simp: filter_id_conv)

lemma filter_min:
  assumes "bst_prop (Some n)"
  shows "filter (\<lambda>x. K x \<noteq> K (Key (minValueNode n))) (inorder (Some n)) = tl (inorder (Some n))"
proof -
  have "sorted_wrt (<) (map K (Key (minValueNode n) # tl (inorder (Some n))))"
    using bst_sorted [OF assms] minValueNode_first [of n] by simp
  from filter_head_sorted [OF this] minValueNode_first [of n] show ?thesis by simp
qed

lemma filter_keys_id: "key \<notin> keys p \<Longrightarrow> filter (\<lambda>x. K x \<noteq> key) (inorder p) = inorder p"
  by (auto simp: keys_inorder filter_id_conv)

lemma inorder_delete:
  "bst_prop p \<Longrightarrow> inorder (delete p key) = filter (\<lambda>x. K x \<noteq> key) (inorder p)"
proof (induction p arbitrary: key rule: ptr_induct)
  case nil
  show ?case by simp
next
  case (Node k l r)
  from Node.prems have bl: "bst_prop l" and br: "bst_prop r" by auto
  show ?case
  proof (cases "key < K k")
    case True
    then have "key \<notin> keys r" using Node.prems by auto
    with True Node.IH(1) [OF bl] show ?thesis by (simp add: filter_keys_id)
  next
    case False
    show ?thesis
    proof (cases "K k < key")
      case True
      then have "key \<notin> keys l" using Node.prems by auto
      with True False Node.IH(2) [OF br] show ?thesis by (simp add: filter_keys_id)
    next
      case F2: False
      with False have eq: "key = K k" by simp
      have nl: "key \<notin> keys l" and nr: "key \<notin> keys r" using Node.prems eq by auto
      show ?thesis
      proof (cases l)
        case None
        with eq nr show ?thesis by (simp add: filter_keys_id)
      next
        case (Some left)
        note l = this
        show ?thesis
        proof (cases r)
          case None
          with eq nl l show ?thesis by (simp add: filter_keys_id)
        next
          case (Some right)
          have "inorder (delete r (K (Key (minValueNode right))))
                  = filter (\<lambda>x. K x \<noteq> K (Key (minValueNode right))) (inorder r)"
            by (rule Node.IH(2) [OF br])
          also have "\<dots> = tl (inorder r)" using filter_min [of right] br Some by simp
          finally have "[Key (minValueNode right)] @ inorder (delete r (K (Key (minValueNode right))))
                  = inorder r"
            using minValueNode_first [of right] Some by simp
          with eq nl nr l Some show ?thesis by (simp add: filter_keys_id Let_def)
        qed
      qed
    qed
  qed
qed

lemma keys_delete: "bst_prop p \<Longrightarrow> keys (delete p key) = keys p - {key}"
  by (auto simp: keys_inorder inorder_delete)

lemma bst_delete: "bst_prop p \<Longrightarrow> bst_prop (delete p key)"
  by (rule sorted_bst)
     (simp add: inorder_delete sorted_wrt_map sorted_wrt_filter bst_sorted [unfolded sorted_wrt_map])

lemma find_filter_key:
  "find (\<lambda>x. K x = key') (filter (\<lambda>x. K x \<noteq> key) xs)
     = (if key' = key then None else find (\<lambda>x. K x = key') xs)"
  by (induction xs) auto

lemma get_delete:
  "bst_prop p \<Longrightarrow> get (delete p key) key' = (if key' = key then None else get p key')"
  by (simp add: get_find bst_delete inorder_delete find_filter_key)

lemma delete_absent: "get p key = None \<Longrightarrow> delete p key = p"
  by (induction p rule: ptr_induct) (auto split: if_splits)

section \<open>What the scans return\<close>

lemma bst_left_less: "bst_prop (Some (Node k l r)) \<Longrightarrow> x \<in> set (inorder l) \<Longrightarrow> K x < K k"
  by (auto simp: keys_inorder)

lemma bst_right_greater: "bst_prop (Some (Node k l r)) \<Longrightarrow> x \<in> set (inorder r) \<Longrightarrow> K k < K x"
  by (auto simp: keys_inorder)

lemma nGet_filter: "nGet p key acc = acc @ filter (\<lambda>x. K x \<noteq> key) (inorder p)"
  by (induction p arbitrary: acc rule: ptr_induct) (auto simp: Let_def)

lemma greaterThan_filter:
  "bst_prop p \<Longrightarrow> greaterThan p key acc = acc @ filter (\<lambda>x. key < K x) (inorder p)"
proof (induction p arbitrary: acc rule: ptr_induct)
  case nil
  show ?case by simp
next
  case (Node k l r)
  from Node.prems have bl: "bst_prop l" and br: "bst_prop r" by auto
  show ?case
  proof (cases "key < K k")
    case True
    with Node.IH(1) [OF bl] Node.IH(2) [OF br] show ?thesis by simp
  next
    case False
    have "filter (\<lambda>x. key < K x) (inorder l) = []"
      using False bst_left_less [OF Node.prems] by (fastforce simp: filter_empty_conv)
    with False Node.IH(2) [OF br] show ?thesis by simp
  qed
qed

lemma mset_preorder: "mset (preorder p) = mset (inorder p)"
  by (induction p rule: ptr_induct) auto

lemma set_preorder: "set (preorder p) = set (inorder p)"
  using mset_preorder [of p] by (metis set_mset_mset)

lemma rangeKeys_filter:
  "bst_prop p \<Longrightarrow>
   rangeKeys p start end acc = acc @ filter (\<lambda>x. start \<le> K x \<and> K x \<le> end) (inorder p)"
proof (induction p arbitrary: acc rule: ptr_induct)
  case nil
  show ?case by simp
next
  case (Node k l r)
  from Node.prems have bl: "bst_prop l" and br: "bst_prop r" by auto
  let ?P = "\<lambda>x. start \<le> K x \<and> K x \<le> end"
  have L: "rangeKeys l start end acc = acc @ filter ?P (inorder l)" for acc
    by (rule Node.IH(1) [OF bl])
  have R: "rangeKeys r start end acc = acc @ filter ?P (inorder r)" for acc
    by (rule Node.IH(2) [OF br])
  have l0: "filter ?P (inorder l) = []" if "\<not> start < K k"
    using that bst_left_less [OF Node.prems] by (fastforce simp: filter_empty_conv)
  have r0: "filter ?P (inorder r) = []" if "\<not> K k < end"
    using that bst_right_greater [OF Node.prems] by (fastforce simp: filter_empty_conv)
  show ?case
  proof (cases "start < K k")
    case s: True
    show ?thesis
    proof (cases "K k < end")
      case True
      with s show ?thesis by (simp add: L R Let_def)
    next
      case False
      with s r0 show ?thesis by (auto simp: L Let_def)
    qed
  next
    case s: False
    show ?thesis
    proof (cases "K k < end")
      case True
      with s l0 show ?thesis by (auto simp: R Let_def)
    next
      case False
      with s l0 r0 show ?thesis by (auto simp: Let_def)
    qed
  qed
qed

lemma greaterThanEq_filter:
  "bst_prop p \<Longrightarrow> greaterThanEq p key acc = acc @ filter (\<lambda>x. key \<le> K x) (preorder p)"
proof (induction p arbitrary: acc rule: ptr_induct)
  case nil
  show ?case by simp
next
  case (Node k l r)
  from Node.prems have bl: "bst_prop l" and br: "bst_prop r" by auto
  show ?case
  proof (cases "key \<le> K k")
    case True
    with Node.IH(1) [OF bl] Node.IH(2) [OF br] show ?thesis by simp
  next
    case False
    have "filter (\<lambda>x. key \<le> K x) (preorder l) = []"
      using False bst_left_less [OF Node.prems]
      by (fastforce simp: filter_empty_conv set_preorder)
    with False Node.IH(2) [OF br] show ?thesis by simp
  qed
qed

lemma lessThan_node_filter:
  "bst_prop p \<Longrightarrow> lessThan_node p key acc = acc @ filter (\<lambda>x. K x < key) (preorder p)"
proof (induction p arbitrary: acc rule: ptr_induct)
  case nil
  show ?case by simp
next
  case (Node k l r)
  from Node.prems have bl: "bst_prop l" and br: "bst_prop r" by auto
  show ?case
  proof (cases "K k < key")
    case True
    with Node.IH(1) [OF bl] Node.IH(2) [OF br] show ?thesis by simp
  next
    case False
    have "filter (\<lambda>x. K x < key) (preorder r) = []"
      using False bst_right_greater [OF Node.prems]
      by (fastforce simp: filter_empty_conv set_preorder)
    with False Node.IH(1) [OF bl] show ?thesis by simp
  qed
qed

lemma lessThanEq_filter:
  "bst_prop p \<Longrightarrow> lessThanEq p key acc = acc @ filter (\<lambda>x. K x \<le> key) (preorder p)"
proof (induction p arbitrary: acc rule: ptr_induct)
  case nil
  show ?case by simp
next
  case (Node k l r)
  from Node.prems have bl: "bst_prop l" and br: "bst_prop r" by auto
  show ?case
  proof (cases "K k \<le> key")
    case True
    with Node.IH(1) [OF bl] Node.IH(2) [OF br] show ?thesis by simp
  next
    case False
    have "filter (\<lambda>x. K x \<le> key) (preorder r) = []"
      using False bst_right_greater [OF Node.prems]
      by (fastforce simp: filter_empty_conv set_preorder)
    with False Node.IH(1) [OF bl] show ?thesis by simp
  qed
qed

section \<open>Sequences of operations\<close>

lemma run_bst:
  "bst_prop (Root bst) \<Longrightarrow> \<exists>bst'. run bst ops = Some bst' \<and> bst_prop (Root bst')"
proof (induction ops arbitrary: bst)
  case Nil
  then show ?case by simp
next
  case (Cons x xs)
  show ?case
  proof (cases x)
    case (OpPut key "value")
    have "bst_prop (slot_after_put (Root bst) (Node \<lparr>K = key, Values = [value]\<rparr> None None))"
      using Cons.prems by (rule bst_slot_after_put)
    from Cons.IH [of "bst\<lparr>Root := slot_after_put (Root bst) (Node \<lparr>K = key, Values = [value]\<rparr> None None)\<rparr>"] this
    show ?thesis using OpPut by (simp add: Put_Some)
  next
    case (OpDelete key)
    have "bst_prop (delete (Root bst) key)" using Cons.prems by (rule bst_delete)
    from Cons.IH [of "Delete bst key"] this show ?thesis using OpDelete by (simp add: Delete_def)
  next
    case (OpRemove key "value")
    have "bst_prop (remove_node (Root bst) key value)" using Cons.prems by (rule bst_remove_node)
    from Cons.IH [of "Remove bst key value"] this show ?thesis using OpRemove by (simp add: Remove_def)
  qed
qed

lemma sorted_keys_distinct: "sorted_wrt (<) (xs :: bytes list) \<Longrightarrow> distinct xs"
  by (simp add: strict_sorted_iff)

section \<open>Emission order of the scans\<close>

lemma sorted_keys_filter:
  "sorted_wrt (<) (map K xs) \<Longrightarrow> sorted_wrt (<) (map K (filter P xs))"
  by (simp add: sorted_wrt_map sorted_wrt_filter)

lemma in_order_scans_ascending:
  assumes "bst_prop (Root bst)"
  shows "sorted_wrt (<) (map K (Range_bst bst lo hi))"
    and "sorted_wrt (<) (map K (GreaterThan bst x))"
    and "sorted_wrt (<) (map K (NGet bst x))"
  using assms
  by (simp_all add: Range_bst_def GreaterThan_def NGet_def rangeKeys_filter greaterThan_filter
      nGet_filter sorted_keys_filter bst_sorted)

text \<open>
  C1. The claim: every scan, GreaterThanEq, LessThan and LessThanEq among them, returns its
  keys in strictly ascending order, emitted left, self, right. Range, GreaterThan and NGet
  do (\<open>in_order_scans_ascending\<close>). The helpers of the other three append the node's key
  before they descend to the left child, so they emit in pre-order (\<open>greaterThanEq_filter\<close>,
  \<open>lessThan_node_filter\<close>, \<open>lessThanEq_filter\<close>). On the tree built by Put of \<open>b\<close> and then of
  \<open>a\<close>, where \<open>a\<close> is the left child of \<open>b\<close>, each of the three returns \<open>b\<close> before \<open>a\<close>.
\<close>

theorem GreaterThanEq_LessThan_LessThanEq_emit_node_before_left:
  "run New [OpPut ''b'' ''1'', OpPut ''a'' ''2'']
     = Some \<lparr>Root = Some (Node \<lparr>K = ''b'', Values = [''1'']\<rparr>
                             (Some (Node \<lparr>K = ''a'', Values = [''2'']\<rparr> None None)) None)\<rparr>
   \<and> map K (GreaterThanEq \<lparr>Root = Some (Node \<lparr>K = ''b'', Values = [''1'']\<rparr>
                             (Some (Node \<lparr>K = ''a'', Values = [''2'']\<rparr> None None)) None)\<rparr> ''a'')
       = [''b'', ''a'']
   \<and> map K (LessThan \<lparr>Root = Some (Node \<lparr>K = ''b'', Values = [''1'']\<rparr>
                             (Some (Node \<lparr>K = ''a'', Values = [''2'']\<rparr> None None)) None)\<rparr> ''c'')
       = [''b'', ''a'']
   \<and> map K (LessThanEq \<lparr>Root = Some (Node \<lparr>K = ''b'', Values = [''1'']\<rparr>
                             (Some (Node \<lparr>K = ''a'', Values = [''2'']\<rparr> None None)) None)\<rparr> ''b'')
       = [''b'', ''a'']"
  by (simp add: Put_Some New_def GreaterThanEq_def LessThan_def LessThanEq_def)

section \<open>The BST property\<close>

text \<open>
  C2. Every sequence of Put, Delete and Remove calls on the empty tree returns, and the tree
  it leaves has the BST property: at every node the keys of the left subtree are less than
  the node's key and those of the right subtree greater. The in-order traversal then lists
  the keys in strictly ascending order, without duplicates.
\<close>

theorem operations_keep_bst_property:
  "\<exists>bst. run New ops = Some bst
      \<and> bst_prop (Root bst)
      \<and> sorted_wrt (<) (map K (inorder (Root bst)))
      \<and> distinct (map K (inorder (Root bst)))"
proof -
  have "bst_prop (Root New)" by (simp add: New_def)
  from run_bst [OF this, of ops] obtain bst where
    r: "run New ops = Some bst" and b: "bst_prop (Root bst)" by blast
  from b have s: "sorted_wrt (<) (map K (inorder (Root bst)))" by (rule bst_sorted)
  then have "distinct (map K (inorder (Root bst)))" by (rule sorted_keys_distinct)
  with r b s show ?thesis by blast
qed

theorem operations_keep_bst_property_witness:
  "run New [OpPut ''b'' ''1'', OpPut ''a'' ''2'', OpPut ''c'' ''3'', OpRemove ''a'' ''2'', OpDelete ''b'']
     = Some \<lparr>Root = Some (Node \<lparr>K = ''c'', Values = [''3'']\<rparr>
                              (Some (Node \<lparr>K = ''a'', Values = []\<rparr> None None)) None)\<rparr>
   \<and> bst_prop (Some (Node \<lparr>K = ''c'', Values = [''3'']\<rparr>
                              (Some (Node \<lparr>K = ''a'', Values = []\<rparr> None None)) None))
   \<and> sorted_wrt (<) [''a'', ''c'']"
  using operations_keep_bst_property
    [of "[OpPut ''b'' ''1'', OpPut ''a'' ''2'', OpPut ''c'' ''3'', OpRemove ''a'' ''2'', OpDelete ''b'']"]
  by (simp add: Put_Some New_def Delete_def Remove_def remove_values.simps)

section \<open>Put and Get\<close>

text \<open>
  C3. On every tree \<open>Put\<close> returns, and afterwards the key is in the tree and \<open>Get\<close> of it finds
  a \<open>Key\<close> with that sort key whose values are the values the key had before (none when it
  was absent) followed by the new value. Two calls in a row append both values in order, so
  the list is the earlier values followed by \<open>v1\<close>, \<open>v2\<close>; it is exactly \<open>[v1, v2]\<close> on a tree that
  did not hold the key before the two calls.
\<close>

theorem Put_appends_value:
  "(\<exists>bst'. Put bst key value = Some bst'
        \<and> key \<in> keys (Root bst')
        \<and> Get bst' key
            = Some \<lparr>K = key,
                    Values = (case Get bst key of None \<Rightarrow> [] | Some k \<Rightarrow> Values k) @ [value]\<rparr>)
   \<and> (\<exists>bst1 bst2. Put bst key v1 = Some bst1 \<and> Put bst1 key v2 = Some bst2
        \<and> Get bst2 key
            = Some \<lparr>K = key,
                    Values = (case Get bst key of None \<Rightarrow> [] | Some k \<Rightarrow> Values k) @ [v1, v2]\<rparr>)
   \<and> (Get bst key = None \<longrightarrow>
        (\<exists>bst1 bst2. Put bst key v1 = Some bst1 \<and> Put bst1 key v2 = Some bst2
           \<and> Get bst2 key = Some \<lparr>K = key, Values = [v1, v2]\<rparr>))"
  by (simp add: Put_Some Get_def get_slot_after_put_same keys_slot_after_put)

theorem Put_appends_value_witness:
  "Get New ''k'' = None
   \<and> Put New ''k'' ''v1'' = Some \<lparr>Root = Some (Node \<lparr>K = ''k'', Values = [''v1'']\<rparr> None None)\<rparr>
   \<and> Put \<lparr>Root = Some (Node \<lparr>K = ''k'', Values = [''v1'']\<rparr> None None)\<rparr> ''k'' ''v2''
       = Some \<lparr>Root = Some (Node \<lparr>K = ''k'', Values = [''v1'', ''v2'']\<rparr> None None)\<rparr>
   \<and> Get \<lparr>Root = Some (Node \<lparr>K = ''k'', Values = [''v1'', ''v2'']\<rparr> None None)\<rparr> ''k''
       = Some \<lparr>K = ''k'', Values = [''v1'', ''v2'']\<rparr>"
  using Put_appends_value [of New "''k''" "''v1''" "''v1''" "''v2''"]
  by (simp add: Put_Some New_def Get_def)

text \<open>
  On a tree that already holds the key with the value \<open>v0\<close>, the two calls leave
  \<open>[v0, v1, v2]\<close>, not \<open>[v1, v2]\<close>.
\<close>

theorem Put_twice_on_present_key_counterexample:
  "Put New ''k'' ''v0'' = Some \<lparr>Root = Some (Node \<lparr>K = ''k'', Values = [''v0'']\<rparr> None None)\<rparr>
   \<and> Put \<lparr>Root = Some (Node \<lparr>K = ''k'', Values = [''v0'']\<rparr> None None)\<rparr> ''k'' ''v1''
       = Some \<lparr>Root = Some (Node \<lparr>K = ''k'', Values = [''v0'', ''v1'']\<rparr> None None)\<rparr>
   \<and> Put \<lparr>Root = Some (Node \<lparr>K = ''k'', Values = [''v0'', ''v1'']\<rparr> None None)\<rparr> ''k'' ''v2''
       = Some \<lparr>Root = Some (Node \<lparr>K = ''k'', Values = [''v0'', ''v1'', ''v2'']\<rparr> None None)\<rparr>
   \<and> Get \<lparr>Root = Some (Node \<lparr>K = ''k'', Values = [''v0'', ''v1'', ''v2'']\<rparr> None None)\<rparr> ''k''
       = Some \<lparr>K = ''k'', Values = [''v0'', ''v1'', ''v2'']\<rparr>
   \<and> Get \<lparr>Root = Some (Node \<lparr>K = ''k'', Values = [''v0'', ''v1'', ''v2'']\<rparr> None None)\<rparr> ''k''
       \<noteq> Some \<lparr>K = ''k'', Values = [''v1'', ''v2'']\<rparr>"
  by (simp add: Put_Some New_def Get_def)

text \<open>
  C7. On a tree with the BST property, \<open>Get\<close> of a key that some node holds returns that
  node's \<open>Key\<close> record, and \<open>Get\<close> of a key that no node holds returns nil; on the empty tree
  it returns nil for every key.
\<close>

theorem Get_finds_exactly_present_keys:
  assumes "bst_prop (Root bst)"
  shows "(key \<in> keys (Root bst) \<longrightarrow>
            (\<exists>k. Get bst key = Some k \<and> K k = key \<and> k \<in> set (inorder (Root bst))))
         \<and> (key \<notin> keys (Root bst) \<longrightarrow> Get bst key = None)
         \<and> Get New key = None"
proof -
  have "\<exists>k. get (Root bst) key = Some k \<and> K k = key \<and> k \<in> set (inorder (Root bst))"
    if "key \<in> keys (Root bst)"
  proof -
    from that assms have "get (Root bst) key \<noteq> None" by (simp add: get_None_iff)
    then obtain k where "get (Root bst) key = Some k" by blast
    with get_Some_key [OF this] show ?thesis by simp
  qed
  moreover have "get (Root bst) key = None" if "key \<notin> keys (Root bst)"
    using that assms by (simp add: get_None_iff)
  ultimately show ?thesis by (simp add: Get_def New_def)
qed

theorem Get_finds_exactly_present_keys_witness:
  "bst_prop (Root \<lparr>Root = Some (Node \<lparr>K = ''b'', Values = [''1'']\<rparr>
                             (Some (Node \<lparr>K = ''a'', Values = [''2'']\<rparr> None None)) None)\<rparr>)
   \<and> ''a'' \<in> keys (Root \<lparr>Root = Some (Node \<lparr>K = ''b'', Values = [''1'']\<rparr>
                             (Some (Node \<lparr>K = ''a'', Values = [''2'']\<rparr> None None)) None)\<rparr>)
   \<and> Get \<lparr>Root = Some (Node \<lparr>K = ''b'', Values = [''1'']\<rparr>
                             (Some (Node \<lparr>K = ''a'', Values = [''2'']\<rparr> None None)) None)\<rparr> ''a''
       = Some \<lparr>K = ''a'', Values = [''2'']\<rparr>
   \<and> ''c'' \<notin> keys (Root \<lparr>Root = Some (Node \<lparr>K = ''b'', Values = [''1'']\<rparr>
                             (Some (Node \<lparr>K = ''a'', Values = [''2'']\<rparr> None None)) None)\<rparr>)
   \<and> Get \<lparr>Root = Some (Node \<lparr>K = ''b'', Values = [''1'']\<rparr>
                             (Some (Node \<lparr>K = ''a'', Values = [''2'']\<rparr> None None)) None)\<rparr> ''c''
       = None"
  using Get_finds_exactly_present_keys
          [of "\<lparr>Root = Some (Node \<lparr>K = ''b'', Values = [''1'']\<rparr>
                             (Some (Node \<lparr>K = ''a'', Values = [''2'']\<rparr> None None)) None)\<rparr>" "''a''"]
        Get_finds_exactly_present_keys
          [of "\<lparr>Root = Some (Node \<lparr>K = ''b'', Values = [''1'']\<rparr>
                             (Some (Node \<lparr>K = ''a'', Values = [''2'']\<rparr> None None)) None)\<rparr>" "''c''"]
  by (simp add: Get_def)

section \<open>Delete removes one key\<close>

text \<open>
  C4. On a tree with the BST property, after \<open>Delete\<close> of a key \<open>Get\<close> of that key returns nil
  and \<open>Get\<close> of every other key returns what it returned before, values included; the
  in-order traversal loses exactly the \<open>Key\<close> with that sort key, and a key that no node
  holds leaves the tree as it was. At a node with two children the node keeps its place and
  its left child, its \<open>Key\<close> becomes the \<open>Key\<close> of the in-order successor (the first of the right
  subtree in order, found by \<open>minValueNode\<close>), and the right subtree loses exactly that
  successor.
\<close>

theorem Delete_removes_exactly_the_key:
  assumes "bst_prop (Root bst)"
  shows "Get (Delete bst key) key = None
         \<and> (\<forall>key'. key' \<noteq> key \<longrightarrow> Get (Delete bst key) key' = Get bst key')
         \<and> inorder (Root (Delete bst key)) = filter (\<lambda>x. K x \<noteq> key) (inorder (Root bst))
         \<and> (key \<notin> keys (Root bst) \<longrightarrow> Delete bst key = bst)
         \<and> (\<forall>k left right.
               bst_prop (Some (Node k (Some left) (Some right))) \<longrightarrow>
                 delete (Some (Node k (Some left) (Some right))) (K k)
                   = Some (Node (Key (minValueNode right)) (Some left)
                        (delete (Some right) (K (Key (minValueNode right)))))
                 \<and> Key (minValueNode right) = hd (inorder (Some right))
                 \<and> inorder (delete (Some right) (K (Key (minValueNode right))))
                     = tl (inorder (Some right)))"
proof -
  have two:
    "delete (Some (Node k (Some left) (Some right))) (K k)
       = Some (Node (Key (minValueNode right)) (Some left)
            (delete (Some right) (K (Key (minValueNode right)))))
     \<and> Key (minValueNode right) = hd (inorder (Some right))
     \<and> inorder (delete (Some right) (K (Key (minValueNode right)))) = tl (inorder (Some right))"
    if "bst_prop (Some (Node k (Some left) (Some right)))" for k left right
  proof -
    from that have "bst_prop (Some right)" by simp
    then have "inorder (delete (Some right) (K (Key (minValueNode right))))
                 = tl (inorder (Some right))"
      by (simp only: inorder_delete filter_min)
    then show ?thesis by (simp add: minValueNode_hd Let_def)
  qed
  have absent: "Delete bst key = bst" if "key \<notin> keys (Root bst)"
    using that assms by (simp add: Delete_def delete_absent get_None_iff)
  have gone: "Get (Delete bst key) key = None"
    using assms by (simp add: Get_def Delete_def get_delete)
  have others: "Get (Delete bst key) key' = Get bst key'" if "key' \<noteq> key" for key'
    using assms that by (simp add: Get_def Delete_def get_delete)
  have ino: "inorder (Root (Delete bst key)) = filter (\<lambda>x. K x \<noteq> key) (inorder (Root bst))"
    using assms by (simp add: Delete_def inorder_delete)
  from two absent gone others ino show ?thesis by blast
qed

theorem Delete_removes_exactly_the_key_witness:
  "bst_prop (Root \<lparr>Root = Some (Node \<lparr>K = ''key'', Values = [''v'']\<rparr> None
       (Some (Node \<lparr>K = ''key33'', Values = [''v'']\<rparr>
          (Some (Node \<lparr>K = ''key2'', Values = [''v'']\<rparr> None
             (Some (Node \<lparr>K = ''key3'', Values = [''v'']\<rparr> None None)))) None)))\<rparr>)
   \<and> Delete \<lparr>Root = Some (Node \<lparr>K = ''key'', Values = [''v'']\<rparr> None
       (Some (Node \<lparr>K = ''key33'', Values = [''v'']\<rparr>
          (Some (Node \<lparr>K = ''key2'', Values = [''v'']\<rparr> None
             (Some (Node \<lparr>K = ''key3'', Values = [''v'']\<rparr> None None)))) None)))\<rparr> ''key2''
       = \<lparr>Root = Some (Node \<lparr>K = ''key'', Values = [''v'']\<rparr> None
           (Some (Node \<lparr>K = ''key33'', Values = [''v'']\<rparr>
              (Some (Node \<lparr>K = ''key3'', Values = [''v'']\<rparr> None None)) None)))\<rparr>
   \<and> Get (Delete \<lparr>Root = Some (Node \<lparr>K = ''key'', Values = [''v'']\<rparr> None
       (Some (Node \<lparr>K = ''key33'', Values = [''v'']\<rparr>
          (Some (Node \<lparr>K = ''key2'', Values = [''v'']\<rparr> None
             (Some (Node \<lparr>K = ''key3'', Values = [''v'']\<rparr> None None)))) None)))\<rparr> ''key2'') ''key2''
       = None
   \<and> Get (Delete \<lparr>Root = Some (Node \<lparr>K = ''key'', Values = [''v'']\<rparr> None
       (Some (Node \<lparr>K = ''key33'', Values = [''v'']\<rparr>
          (Some (Node \<lparr>K = ''key2'', Values = [''v'']\<rparr> None
             (Some (Node \<lparr>K = ''key3'', Values = [''v'']\<rparr> None None)))) None)))\<rparr> ''key2'') ''key3''
       = Some \<lparr>K = ''key3'', Values = [''v'']\<rparr>
   \<and> bst_prop (Some (Node \<lparr>K = ''b'', Values = [''1'']\<rparr>
         (Some (Node \<lparr>K = ''a'', Values = [''2'']\<rparr> None None))
         (Some (Node \<lparr>K = ''d'', Values = [''4'']\<rparr>
            (Some (Node \<lparr>K = ''c'', Values = [''3'']\<rparr> None None)) None))))
   \<and> delete (Some (Node \<lparr>K = ''b'', Values = [''1'']\<rparr>
         (Some (Node \<lparr>K = ''a'', Values = [''2'']\<rparr> None None))
         (Some (Node \<lparr>K = ''d'', Values = [''4'']\<rparr>
            (Some (Node \<lparr>K = ''c'', Values = [''3'']\<rparr> None None)) None)))) ''b''
       = Some (Node \<lparr>K = ''c'', Values = [''3'']\<rparr>
           (Some (Node \<lparr>K = ''a'', Values = [''2'']\<rparr> None None))
           (Some (Node \<lparr>K = ''d'', Values = [''4'']\<rparr> None None)))"
  using Delete_removes_exactly_the_key
    [of "\<lparr>Root = Some (Node \<lparr>K = ''key'', Values = [''v'']\<rparr> None
       (Some (Node \<lparr>K = ''key33'', Values = [''v'']\<rparr>
          (Some (Node \<lparr>K = ''key2'', Values = [''v'']\<rparr> None
             (Some (Node \<lparr>K = ''key3'', Values = [''v'']\<rparr> None None)))) None)))\<rparr>" "''key2''"]
  by (simp add: Delete_def Get_def)

section \<open>Membership of the scan results\<close>

text \<open>
  C5. On a tree with the BST property every scan returns exactly the \<open>Key\<close>s that satisfy its
  predicate, each once: \<open>Range\<close> those between \<open>lo\<close> and \<open>hi\<close> inclusive (none when no key lies
  there), \<open>GreaterThan\<close> those above \<open>x\<close>, \<open>GreaterThanEq\<close> those at or above, \<open>LessThan\<close> those
  below, \<open>LessThanEq\<close> those at or below, and \<open>NGet\<close> all but \<open>x\<close>. For \<open>Range\<close>, \<open>GreaterThan\<close> and
  \<open>NGet\<close> the result is the in-order list filtered; for the other three it is stated as a
  multiset, since the order they emit in is the subject of C1.
\<close>

theorem scans_return_exactly_the_qualifying_keys:
  assumes "bst_prop (Root bst)"
  shows "Range_bst bst lo hi = filter (\<lambda>k. lo \<le> K k \<and> K k \<le> hi) (inorder (Root bst))
         \<and> ((\<forall>k \<in> keys (Root bst). \<not> (lo \<le> k \<and> k \<le> hi)) \<longrightarrow> Range_bst bst lo hi = [])
         \<and> GreaterThan bst x = filter (\<lambda>k. x < K k) (inorder (Root bst))
         \<and> mset (GreaterThanEq bst x) = mset (filter (\<lambda>k. x \<le> K k) (inorder (Root bst)))
         \<and> mset (LessThan bst x) = mset (filter (\<lambda>k. K k < x) (inorder (Root bst)))
         \<and> mset (LessThanEq bst x) = mset (filter (\<lambda>k. K k \<le> x) (inorder (Root bst)))
         \<and> NGet bst x = filter (\<lambda>k. K k \<noteq> x) (inorder (Root bst))"
proof -
  have r: "Range_bst bst lo hi = filter (\<lambda>k. lo \<le> K k \<and> K k \<le> hi) (inorder (Root bst))"
    using assms by (simp add: Range_bst_def rangeKeys_filter)
  have e: "Range_bst bst lo hi = []" if "\<forall>k \<in> keys (Root bst). \<not> (lo \<le> k \<and> k \<le> hi)"
    using that unfolding r by (auto simp: filter_empty_conv keys_inorder)
  have g: "GreaterThan bst x = filter (\<lambda>k. x < K k) (inorder (Root bst))"
    using assms by (simp add: GreaterThan_def greaterThan_filter)
  have ge: "mset (GreaterThanEq bst x) = mset (filter (\<lambda>k. x \<le> K k) (inorder (Root bst)))"
    using assms by (simp add: GreaterThanEq_def greaterThanEq_filter mset_filter mset_preorder)
  have l: "mset (LessThan bst x) = mset (filter (\<lambda>k. K k < x) (inorder (Root bst)))"
    using assms by (simp add: LessThan_def lessThan_node_filter mset_filter mset_preorder)
  have le: "mset (LessThanEq bst x) = mset (filter (\<lambda>k. K k \<le> x) (inorder (Root bst)))"
    using assms by (simp add: LessThanEq_def lessThanEq_filter mset_filter mset_preorder)
  have n: "NGet bst x = filter (\<lambda>k. K k \<noteq> x) (inorder (Root bst))"
    by (simp add: NGet_def nGet_filter)
  from r e g ge l le n show ?thesis by blast
qed

theorem scans_return_exactly_the_qualifying_keys_witness:
  "bst_prop (Root \<lparr>Root = Some (Node \<lparr>K = ''key05'', Values = [''5'']\<rparr>
       (Some (Node \<lparr>K = ''key03'', Values = [''3'']\<rparr> None
          (Some (Node \<lparr>K = ''key04'', Values = [''4'']\<rparr> None None))))
       (Some (Node \<lparr>K = ''key06'', Values = [''6'']\<rparr> None None)))\<rparr>)
   \<and> map K (Range_bst \<lparr>Root = Some (Node \<lparr>K = ''key05'', Values = [''5'']\<rparr>
       (Some (Node \<lparr>K = ''key03'', Values = [''3'']\<rparr> None
          (Some (Node \<lparr>K = ''key04'', Values = [''4'']\<rparr> None None))))
       (Some (Node \<lparr>K = ''key06'', Values = [''6'']\<rparr> None None)))\<rparr> ''key04'' ''key05'')
      = [''key04'', ''key05'']
   \<and> Range_bst \<lparr>Root = Some (Node \<lparr>K = ''key05'', Values = [''5'']\<rparr>
       (Some (Node \<lparr>K = ''key03'', Values = [''3'']\<rparr> None
          (Some (Node \<lparr>K = ''key04'', Values = [''4'']\<rparr> None None))))
       (Some (Node \<lparr>K = ''key06'', Values = [''6'']\<rparr> None None)))\<rparr> ''key07'' ''key09''
      = []
   \<and> map K (GreaterThan \<lparr>Root = Some (Node \<lparr>K = ''key05'', Values = [''5'']\<rparr>
       (Some (Node \<lparr>K = ''key03'', Values = [''3'']\<rparr> None
          (Some (Node \<lparr>K = ''key04'', Values = [''4'']\<rparr> None None))))
       (Some (Node \<lparr>K = ''key06'', Values = [''6'']\<rparr> None None)))\<rparr> ''key04'')
      = [''key05'', ''key06'']
   \<and> map K (NGet \<lparr>Root = Some (Node \<lparr>K = ''key05'', Values = [''5'']\<rparr>
       (Some (Node \<lparr>K = ''key03'', Values = [''3'']\<rparr> None
          (Some (Node \<lparr>K = ''key04'', Values = [''4'']\<rparr> None None))))
       (Some (Node \<lparr>K = ''key06'', Values = [''6'']\<rparr> None None)))\<rparr> ''key04'')
      = [''key03'', ''key05'', ''key06'']"
  using scans_return_exactly_the_qualifying_keys
    [of "\<lparr>Root = Some (Node \<lparr>K = ''key05'', Values = [''5'']\<rparr>
       (Some (Node \<lparr>K = ''key03'', Values = [''3'']\<rparr> None
          (Some (Node \<lparr>K = ''key04'', Values = [''4'']\<rparr> None None))))
       (Some (Node \<lparr>K = ''key06'', Values = [''6'']\<rparr> None None)))\<rparr>" "''key04''" "''key05''" "''key04''"]
  by (simp add: Range_bst_def GreaterThan_def NGet_def)

section \<open>Remove drops one value\<close>

text \<open>
  C6. After \<open>Remove\<close> of a value under a key that \<open>Get\<close> finds, the key's values are the old
  ones without the first element equal to the value: what stood before it and what stood
  after it, later duplicates included, stay in their order. Other keys and all links are
  untouched. When \<open>Get\<close> does not find the key, or the value is not among the key's values,
  the tree stays as it was.
\<close>

theorem Remove_drops_first_matching_value:
  "Get (Remove bst key value) key
     = map_option (\<lambda>k. k\<lparr>Values := remove1 value (Values k)\<rparr>) (Get bst key)
   \<and> (\<forall>k xs ys. Get bst key = Some k \<and> Values k = xs @ value # ys \<and> value \<notin> set xs \<longrightarrow>
          Get (Remove bst key value) key = Some (k\<lparr>Values := xs @ ys\<rparr>))
   \<and> (\<forall>key'. key' \<noteq> key \<longrightarrow> Get (Remove bst key value) key' = Get bst key')
   \<and> links (Root (Remove bst key value)) = links (Root bst)
   \<and> (Get bst key = None \<longrightarrow> Remove bst key value = bst)
   \<and> (\<forall>k. Get bst key = Some k \<and> value \<notin> set (Values k) \<longrightarrow> Remove bst key value = bst)"
proof -
  have a: "Get (Remove bst key value) key
             = map_option (\<lambda>k. k\<lparr>Values := remove1 value (Values k)\<rparr>) (Get bst key)"
    by (simp add: Get_def Remove_def get_remove_node)
  have b: "Get (Remove bst key value) key = Some (k\<lparr>Values := xs @ ys\<rparr>)"
    if "Get bst key = Some k" "Values k = xs @ value # ys" "value \<notin> set xs" for k xs ys
    using that unfolding a by (simp add: remove1_append)
  have c: "Get (Remove bst key value) key' = Get bst key'" if "key' \<noteq> key" for key'
    using that by (simp add: Get_def Remove_def get_remove_node)
  have d: "links (Root (Remove bst key value)) = links (Root bst)"
    by (simp add: Remove_def links_remove_node)
  have e: "Remove bst key value = bst" if "Get bst key = None"
    using that by (simp add: Get_def Remove_def remove_node_absent_key)
  have f: "Remove bst key value = bst" if "Get bst key = Some k" "value \<notin> set (Values k)" for k
    using that by (simp add: Get_def Remove_def remove_node_absent_value)
  from a b c d e f show ?thesis by blast
qed

theorem Remove_drops_first_matching_value_witness:
  "Get \<lparr>Root = Some (Node \<lparr>K = ''k'', Values = [''a'', ''b'', ''c'', ''b'']\<rparr> None None)\<rparr> ''k''
     = Some \<lparr>K = ''k'', Values = [''a'', ''b'', ''c'', ''b'']\<rparr>
   \<and> Get (Remove \<lparr>Root = Some (Node \<lparr>K = ''k'', Values = [''a'', ''b'', ''c'', ''b'']\<rparr> None None)\<rparr>
          ''k'' ''b'') ''k''
     = Some \<lparr>K = ''k'', Values = [''a'', ''c'', ''b'']\<rparr>
   \<and> Remove \<lparr>Root = Some (Node \<lparr>K = ''k'', Values = [''a'', ''b'', ''c'', ''b'']\<rparr> None None)\<rparr>
          ''k'' ''z''
     = \<lparr>Root = Some (Node \<lparr>K = ''k'', Values = [''a'', ''b'', ''c'', ''b'']\<rparr> None None)\<rparr>"
  using Remove_drops_first_matching_value
    [of "\<lparr>Root = Some (Node \<lparr>K = ''k'', Values = [''a'', ''b'', ''c'', ''b'']\<rparr> None None)\<rparr>"
        "''k''" "''b''"]
  by (simp add: Get_def Remove_def remove_values_remove1)

section \<open>Absent keys and values\<close>

text \<open>
  C8. On a tree with the BST property, \<open>Delete\<close> and \<open>Remove\<close> of a key that no node holds,
  and \<open>Remove\<close> of a value that the key's node does not hold, return the very tree they were
  given; every \<open>Get\<close> and every scan of it therefore returns what it returned before.
\<close>

theorem absent_key_or_value_is_noop:
  assumes "bst_prop (Root bst)"
  shows "(key \<notin> keys (Root bst) \<longrightarrow> Delete bst key = bst \<and> Remove bst key value = bst)
         \<and> (\<forall>k. k \<in> set (inorder (Root bst)) \<and> K k = key \<and> value \<notin> set (Values k) \<longrightarrow>
               Remove bst key value = bst)"
proof -
  have none: "Delete bst key = bst \<and> Remove bst key value = bst" if "Get bst key = None"
    using that by (simp add: Get_def Delete_def Remove_def delete_absent remove_node_absent_key)
  have a: "Delete bst key = bst \<and> Remove bst key value = bst" if "key \<notin> keys (Root bst)"
  proof -
    from that assms have "Get bst key = None" by (simp add: Get_def get_None_iff)
    then show ?thesis by (rule none)
  qed
  have b: "Remove bst key value = bst"
    if "k \<in> set (inorder (Root bst))" "K k = key" "value \<notin> set (Values k)" for k
  proof -
    from that(1,2) have "key \<in> keys (Root bst)" by (auto simp: keys_inorder)
    with assms have "get (Root bst) key \<noteq> None" by (simp add: get_None_iff)
    then obtain k' where g: "get (Root bst) key = Some k'" by blast
    from get_Some_key [OF g] have k': "K k' = key" "k' \<in> set (inorder (Root bst))" by simp_all
    have "inj_on K (set (inorder (Root bst)))"
      using bst_sorted [OF assms] by (simp add: strict_sorted_iff distinct_map)
    with that(1,2) k' have "k' = k" by (auto dest: inj_onD)
    with g that(3) show ?thesis by (simp add: Remove_def remove_node_absent_value)
  qed
  from a b show ?thesis by blast
qed

theorem absent_key_or_value_is_noop_witness:
  "bst_prop (Root \<lparr>Root = Some (Node \<lparr>K = ''b'', Values = [''1'']\<rparr>
                             (Some (Node \<lparr>K = ''a'', Values = [''2'']\<rparr> None None)) None)\<rparr>)
   \<and> ''c'' \<notin> keys (Root \<lparr>Root = Some (Node \<lparr>K = ''b'', Values = [''1'']\<rparr>
                             (Some (Node \<lparr>K = ''a'', Values = [''2'']\<rparr> None None)) None)\<rparr>)
   \<and> Delete \<lparr>Root = Some (Node \<lparr>K = ''b'', Values = [''1'']\<rparr>
                             (Some (Node \<lparr>K = ''a'', Values = [''2'']\<rparr> None None)) None)\<rparr> ''c''
       = \<lparr>Root = Some (Node \<lparr>K = ''b'', Values = [''1'']\<rparr>
                             (Some (Node \<lparr>K = ''a'', Values = [''2'']\<rparr> None None)) None)\<rparr>
   \<and> Remove \<lparr>Root = Some (Node \<lparr>K = ''b'', Values = [''1'']\<rparr>
                             (Some (Node \<lparr>K = ''a'', Values = [''2'']\<rparr> None None)) None)\<rparr> ''c'' ''2''
       = \<lparr>Root = Some (Node \<lparr>K = ''b'', Values = [''1'']\<rparr>
                             (Some (Node \<lparr>K = ''a'', Values = [''2'']\<rparr> None None)) None)\<rparr>
   \<and> Remove \<lparr>Root = Some (Node \<lparr>K = ''b'', Values = [''1'']\<rparr>
                             (Some (Node \<lparr>K = ''a'', Values = [''2'']\<rparr> None None)) None)\<rparr> ''a'' ''1''
       = \<lparr>Root = Some (Node \<lparr>K = ''b'', Values = [''1'']\<rparr>
                             (Some (Node \<lparr>K = ''a'', Values = [''2'']\<rparr> None None)) None)\<rparr>"
  using absent_key_or_value_is_noop
    [of "\<lparr>Root = Some (Node \<lparr>K = ''b'', Values = [''1'']\<rparr>
                             (Some (Node \<lparr>K = ''a'', Values = [''2'']\<rparr> None None)) None)\<rparr>"
        "''c''" "''2''"]
    absent_key_or_value_is_noop
    [of "\<lparr>Root = Some (Node \<lparr>K = ''b'', Values = [''1'']\<rparr>
                             (Some (Node \<lparr>K = ''a'', Values = [''2'']\<rparr> None None)) None)\<rparr>"
        "''a''" "''1''"]
  by (simp add: Delete_def Remove_def remove_values.simps)

section \<open>Termination\<close>

text \<open>
  C9. In sequential execution the compare-and-swap of a slot that was just read as nil
  succeeds and \<open>put\<close> returns true, so the retry loop of \<open>Put\<close> returns in its first
  iteration. The helpers \<open>put\<close>, \<open>get\<close>, \<open>remove_node\<close>, \<open>delete\<close>, \<open>minValueNode\<close> and the scan
  helpers are total functions: every recursive call, the deletion of the successor from the
  right subtree included, is on a child of the node at hand, and their termination proofs
  above measure the number of nodes below the pointer.
\<close>

theorem Put_returns_in_its_first_iteration:
  "CompareAndSwapPointer None None (Some newNode) = (Some newNode, True)
   \<and> snd (put n newNode)
   \<and> Put_loop bst newNode = Some (bst\<lparr>Root := slot_after_put (Root bst) newNode\<rparr>)
   \<and> (\<exists>bst'. Put bst key value = Some bst')"
proof -
  have "snd (put n newNode)"
    using put_ok [of n newNode "fst (put n newNode)" "snd (put n newNode)"] by simp
  then show ?thesis by (simp add: CompareAndSwapPointer_def Put_loop_Some Put_Some)
qed

theorem Put_returns_in_its_first_iteration_witness:
  "put (Node \<lparr>K = ''b'', Values = [''1'']\<rparr> None None) (Node \<lparr>K = ''a'', Values = [''2'']\<rparr> None None)
     = (Node \<lparr>K = ''b'', Values = [''1'']\<rparr>
          (Some (Node \<lparr>K = ''a'', Values = [''2'']\<rparr> None None)) None, True)
   \<and> Put \<lparr>Root = Some (Node \<lparr>K = ''b'', Values = [''1'']\<rparr> None None)\<rparr> ''a'' ''2''
       = Some \<lparr>Root = Some (Node \<lparr>K = ''b'', Values = [''1'']\<rparr>
                               (Some (Node \<lparr>K = ''a'', Values = [''2'']\<rparr> None None)) None)\<rparr>"
  using Put_returns_in_its_first_iteration
    [of "Node \<lparr>K = ''a'', Values = [''2'']\<rparr> None None" "Node \<lparr>K = ''b'', Values = [''1'']\<rparr> None None"
        "\<lparr>Root = Some (Node \<lparr>K = ''b'', Values = [''1'']\<rparr> None None)\<rparr>" "''a''" "''2''"]
  by (simp add: Put_def CompareAndSwapPointer_def)

section \<open>Frame of Put on a present key\<close>

text \<open>
  C10. On a tree with the BST property that holds the key, \<open>Put\<close> returns a tree with the
  same links: the same nodes with the same sort keys in the same places. It is the old tree
  in which the one \<open>Key\<close> with that sort key has the new value appended to its values, and
  nothing else differs.
\<close>

theorem Put_on_present_key_changes_no_link:
  assumes "bst_prop (Root bst)" and "key \<in> keys (Root bst)"
  shows "\<exists>bst'. Put bst key value = Some bst'
           \<and> links (Root bst') = links (Root bst)
           \<and> Root bst'
               = mapKeys (\<lambda>k. if K k = key then k\<lparr>Values := Values k @ [value]\<rparr> else k) (Root bst)
           \<and> inorder (Root bst')
               = map (\<lambda>k. if K k = key then k\<lparr>Values := Values k @ [value]\<rparr> else k)
                   (inorder (Root bst))"
  using assms
  by (simp add: Put_Some slot_after_put_present links_mapKeys inorder_mapKeys)

theorem Put_on_present_key_changes_no_link_witness:
  "bst_prop (Root \<lparr>Root = Some (Node \<lparr>K = ''b'', Values = [''1'']\<rparr>
                             (Some (Node \<lparr>K = ''a'', Values = [''2'']\<rparr> None None)) None)\<rparr>)
   \<and> ''a'' \<in> keys (Root \<lparr>Root = Some (Node \<lparr>K = ''b'', Values = [''1'']\<rparr>
                             (Some (Node \<lparr>K = ''a'', Values = [''2'']\<rparr> None None)) None)\<rparr>)
   \<and> Put \<lparr>Root = Some (Node \<lparr>K = ''b'', Values = [''1'']\<rparr>
                             (Some (Node \<lparr>K = ''a'', Values = [''2'']\<rparr> None None)) None)\<rparr> ''a'' ''3''
       = Some \<lparr>Root = Some (Node \<lparr>K = ''b'', Values = [''1'']\<rparr>
                             (Some (Node \<lparr>K = ''a'', Values = [''2'', ''3'']\<rparr> None None)) None)\<rparr>
   \<and> links (Some (Node \<lparr>K = ''b'', Values = [''1'']\<rparr>
                             (Some (Node \<lparr>K = ''a'', Values = [''2'', ''3'']\<rparr> None None)) None))
       = links (Some (Node \<lparr>K = ''b'', Values = [''1'']\<rparr>
                             (Some (Node \<lparr>K = ''a'', Values = [''2'']\<rparr> None None)) None))"
  using Put_on_present_key_changes_no_link
    [of "\<lparr>Root = Some (Node \<lparr>K = ''b'', Values = [''1'']\<rparr>
                             (Some (Node \<lparr>K = ''a'', Values = [''2'']\<rparr> None None)) None)\<rparr>"
        "''a''" "''3''"]
  by (simp add: Put_Some links_def)

end
